theory Spec2Isabelle
  imports Main
begin

section \<open>Errors, observable actions and the state of a FileProxy\<close>

text \<open>
  The class \<open>FileProxy\<close> of \<open>index.js\<close> is embedded as functions on a record that
  holds the fields of one proxy instance together with the part of the outside world
  the instance talks to: the file system, the lock markers of \<open>proper-lockfile\<close> and a
  trace of every externally visible action in the order it happened.  An exception is a
  value \<open>Inl e\<close>; a method that can throw returns its outcome paired with the state
  reached at the moment it returned or threw.
\<close>

datatype error =
    Error string
  | TypeError string
  | SysError string string

datatype action =
    LockSync string
  | Release string
  | WriteFile string string
  | Rename string string
  | Mkdir string
  | Exec string
  | Emit string
  | Warn string

record state =
  dbfile :: string
  munge :: "string option"
  cipher :: string
  autolock :: bool
  hidelock :: bool
  release :: "string option"
  lockowner :: bool
  proxy_lockfilepid :: "string option option"
  os :: string
  readable :: "string set"
  files :: "string \<rightharpoonup> string"
  markers :: "string set"
  faulty :: "string set"
  badcmds :: "string set"
  trace :: "action list"

text \<open>
  Fields of the instance: \<open>dbfile\<close>, \<open>munge\<close> (the encryption key, \<open>None\<close> for
  \<open>null\<close>), \<open>cipher\<close>, \<open>autolock\<close> (\<open>_autolock\<close>), \<open>hidelock\<close>, \<open>release\<close>
  (\<open>_release\<close>: \<open>None\<close> for \<open>null\<close>, otherwise the path whose marker the stored
  function removes), \<open>lockowner\<close> (\<open>_lockowner\<close>), \<open>proxy_lockfilepid\<close>
  (\<open>this.proxy\<close>: \<open>None\<close> when undefined, otherwise its \<open>lockfilepid\<close>) and \<open>os\<close>
  (the platform name).

  The world: \<open>readable\<close> is the set of paths for which \<open>NGN.util.pathReadable\<close> answers
  true, \<open>files\<close> the content of the regular files, \<open>markers\<close> the paths that carry a
  lock marker (of whichever process), \<open>faulty\<close> the paths at which a call into the file
  system or the lock library fails with an I/O error, \<open>badcmds\<close> the shell commands that
  exit with a failure.  Time is not part of the model: a marker never goes stale.
\<close>

type_synonym 'a outcome = "(error + 'a) \<times> state"

definition emit :: "string \<Rightarrow> state \<Rightarrow> state" where
  "emit name s = s\<lparr>trace := trace s @ [Emit name]\<rparr>"

definition warn :: "string \<Rightarrow> state \<Rightarrow> state" where
  "warn msg s = s\<lparr>trace := trace s @ [Warn msg]\<rparr>"

subsection \<open>The collaborators: file system, lock library, shell\<close>

definition pathReadable :: "state \<Rightarrow> string \<Rightarrow> bool" where
  "pathReadable s p = (p \<in> readable s)"

definition checkSync :: "state \<Rightarrow> string \<Rightarrow> error + bool" where
  "checkSync s p =
     (if p \<in> faulty s then Inl (SysError ''EIO'' p) else Inr (p \<in> markers s))"

definition lockSync :: "string \<Rightarrow> state \<Rightarrow> string outcome" where
  "lockSync p s =
     (if p \<in> faulty s then (Inl (SysError ''EIO'' p), s)
      else if p \<in> markers s then (Inl (SysError ''ELOCKED'' p), s)
      else (Inr p, s\<lparr>markers := insert p (markers s), trace := trace s @ [LockSync p]\<rparr>))"

definition run_release :: "string \<Rightarrow> state \<Rightarrow> state" where
  "run_release h s = s\<lparr>markers := markers s - {h}, trace := trace s @ [Release h]\<rparr>"

definition exec :: "string \<Rightarrow> state \<Rightarrow> unit outcome" where
  "exec cmd s =
     (if cmd \<in> badcmds s then (Inl (SysError ''ECMD'' cmd), s)
      else (Inr (), s\<lparr>trace := trace s @ [Exec cmd]\<rparr>))"

definition renameSync :: "string \<Rightarrow> string \<Rightarrow> state \<Rightarrow> unit outcome" where
  "renameSync src dst s =
     (if src \<in> faulty s then (Inl (SysError ''EIO'' src), s)
      else if dst \<in> faulty s then (Inl (SysError ''EIO'' dst), s)
      else if src \<notin> readable s \<and> files s src = None then (Inl (SysError ''ENOENT'' src), s)
      else (Inr (),
            s\<lparr>files := (files s)(src := None, dst := files s src),
              readable := (if src \<in> readable s then insert dst (readable s - {src})
                           else readable s - {src, dst}),
              trace := trace s @ [Rename src dst]\<rparr>))"

definition mkdirSync :: "string \<Rightarrow> state \<Rightarrow> unit outcome" where
  "mkdirSync p s =
     (if p \<in> faulty s then (Inl (SysError ''EIO'' p), s)
      else if p \<in> readable s then (Inl (SysError ''EEXIST'' p), s)
      else (Inr (), s\<lparr>readable := insert p (readable s), trace := trace s @ [Mkdir p]\<rparr>))"

definition writeFileSync :: "string \<Rightarrow> string \<Rightarrow> state \<Rightarrow> unit outcome" where
  "writeFileSync p c s =
     (if p \<in> faulty s then (Inl (SysError ''EIO'' p), s)
      else if p \<in> readable s \<and> files s p = None then (Inl (SysError ''EISDIR'' p), s)
      else (Inr (),
            s\<lparr>files := (files s)(p \<mapsto> c),
              readable := (if files s p = None then insert p (readable s) else readable s),
              trace := trace s @ [WriteFile p c]\<rparr>))"

definition readFileSync :: "state \<Rightarrow> string \<Rightarrow> error + string" where
  "readFileSync s p =
     (if p \<in> faulty s then Inl (SysError ''EIO'' p)
      else case files s p of None \<Rightarrow> Inl (SysError ''ENOENT'' p) | Some c \<Rightarrow> Inr c)"

text \<open>
  What is assumed of the collaborators.  \<open>checkSync\<close> answers whether a marker
  exists for the path and throws at a faulty path.  \<open>lockSync\<close> throws when the path
  is faulty or already carries a marker; otherwise it creates the marker and returns the
  release function, represented by the path it was created for.  Calling that function
  (\<open>run_release\<close>) removes the marker; the callback it is given runs right after.
  \<open>renameSync\<close> moves content and readability from the old name to the new one and
  throws when the source does not exist.  \<open>mkdirSync\<close> throws on an existing readable
  path and otherwise creates a readable directory.  \<open>writeFileSync\<close> replaces the whole
  content, creating a readable file when there was none, and throws on a directory.
  \<open>readFileSync\<close> throws when there is no such file.  \<open>exec\<close> stands for
  \<open>child_process.execSync\<close>.
\<close>

text \<open>
  The \<open>crypto\<close> module is a parameter: \<open>cipher_run alg key text\<close> stands for
  \<open>createCipher(alg, key)\<close> followed by \<open>update(text, 'utf8', 'hex')\<close> and
  \<open>final('hex')\<close>, and \<open>decipher_run\<close> for the same with \<open>createDecipher\<close>, from
  \<open>'hex'\<close> to \<open>'utf8'\<close>.  Either may throw.
\<close>

record crypto =
  cipher_run :: "string \<Rightarrow> string option \<Rightarrow> string \<Rightarrow> error + string"
  decipher_run :: "string \<Rightarrow> string option \<Rightarrow> string \<Rightarrow> error + string"

subsection \<open>Strings and paths (the POSIX variant of the \<open>path\<close> module)\<close>

definition slash :: char where
  "slash = CHR ''/''"

definition dquote :: char where
  "dquote = CHR 0x22"

fun split_on :: "char \<Rightarrow> string \<Rightarrow> string list" where
  "split_on c [] = [[]]"
| "split_on c (x # xs) =
     (if x = c then [] # split_on c xs
      else (case split_on c xs of [] \<Rightarrow> [[x]] | y # ys \<Rightarrow> (x # y) # ys))"

fun join_with :: "char \<Rightarrow> string list \<Rightarrow> string" where
  "join_with c [] = []"
| "join_with c [x] = x"
| "join_with c (x # y # ys) = x @ c # join_with c (y # ys)"

definition basename :: "string \<Rightarrow> string" where
  "basename p = rev (takeWhile (\<lambda>c. c \<noteq> slash) (dropWhile (\<lambda>c. c = slash) (rev p)))"

definition dirname :: "string \<Rightarrow> string" where
  "dirname p =
     (if p = [] then ''.''
      else let hasRoot = (hd p = slash);
               r = dropWhile (\<lambda>c. c \<noteq> slash) (dropWhile (\<lambda>c. c = slash) (rev (tl p)))
           in if r = [] then (if hasRoot then ''/'' else ''.'')
              else if hasRoot \<and> length r = 1 then ''//''
              else take (length r) p)"

definition normalizeStep :: "bool \<Rightarrow> string list \<Rightarrow> string \<Rightarrow> string list" where
  "normalizeStep allowAboveRoot res seg =
     (if seg = [] \<or> seg = ''.'' then res
      else if seg = ''..'' then
        (if res \<noteq> [] \<and> last res \<noteq> ''..'' then butlast res
         else if allowAboveRoot then res @ [''..'']
         else res)
      else res @ [seg])"

definition normalizeString :: "string \<Rightarrow> bool \<Rightarrow> string list" where
  "normalizeString p allowAboveRoot = foldl (normalizeStep allowAboveRoot) [] (split_on slash p)"

definition normalize :: "string \<Rightarrow> string" where
  "normalize p =
     (if p = [] then ''.''
      else let isAbsolute = (hd p = slash);
               trailingSeparator = (last p = slash);
               segs = normalizeString p (\<not> isAbsolute)
           in if segs = [] then
                (if isAbsolute then ''/'' else if trailingSeparator then ''./'' else ''.'')
              else (if isAbsolute then ''/'' else [])
                   @ join_with slash segs
                   @ (if trailingSeparator then ''/'' else []))"

definition path_join :: "string \<Rightarrow> string \<Rightarrow> string" where
  "path_join a b =
     (if a = [] \<and> b = [] then ''.''
      else if a = [] then normalize b
      else if b = [] then normalize a
      else normalize (a @ slash # b))"

text \<open>
  \<open>String.prototype.replace\<close> with a string pattern: only the first occurrence is
  replaced, and in the replacement \<open>$$\<close>, \<open>$&\<close>, \<open>$`\<close> and \<open>$'\<close> are expanded
  (there are no capture groups, so every other \<open>$\<close> stays as it is).
\<close>

fun find_first :: "string \<Rightarrow> string \<Rightarrow> (string \<times> string) option" where
  "find_first pat [] = (if pat = [] then Some ([], []) else None)"
| "find_first pat (x # xs) =
     (if take (length pat) (x # xs) = pat then Some ([], drop (length pat) (x # xs))
      else map_option (\<lambda>(b, a). (x # b, a)) (find_first pat xs))"

fun get_substitution :: "string \<Rightarrow> string \<Rightarrow> string \<Rightarrow> string \<Rightarrow> string" where
  "get_substitution m b a [] = []"
| "get_substitution m b a [c] = [c]"
| "get_substitution m b a (c # d # r) =
     (if c = CHR ''$'' \<and> d = CHR ''$'' then CHR ''$'' # get_substitution m b a r
      else if c = CHR ''$'' \<and> d = CHR ''&'' then m @ get_substitution m b a r
      else if c = CHR ''$'' \<and> d = CHR 0x60 then b @ get_substitution m b a r
      else if c = CHR ''$'' \<and> d = CHR 0x27 then a @ get_substitution m b a r
      else c # get_substitution m b a (d # r))"

definition js_replace :: "string \<Rightarrow> string \<Rightarrow> string \<Rightarrow> string" where
  "js_replace str pat rep =
     (case find_first pat str of
        None \<Rightarrow> str
      | Some (b, a) \<Rightarrow> b @ get_substitution pat b a rep @ a)"

section \<open>The methods of FileProxy\<close>

text \<open>
  The getters \<open>locked\<close> (a failing \<open>checkSync\<close> is caught and counts as not
  locked) and \<open>isLockOwner\<close>.
\<close>

definition locked :: "state \<Rightarrow> bool" where
  "locked s = (case checkSync s (dbfile s) of Inl e \<Rightarrow> False | Inr response \<Rightarrow> response)"

definition isLockOwner :: "state \<Rightarrow> bool" where
  "isLockOwner s = lockowner s"

text \<open>
  \<open>mkdirp\<close> calls itself on the parent and then on the directory again.  Nothing in
  the method bounds the recursion, so it is defined as a partial function: \<open>None\<close>
  means that the call does not return.
\<close>

partial_function (option) mkdirp :: "string \<Rightarrow> state \<Rightarrow> unit outcome option" where
  "mkdirp dir s =
     (if pathReadable s dir then Some (Inr (), s)
      else if pathReadable s (path_join dir ''..'') then Some (mkdirSync dir s)
      else Option.bind (mkdirp (path_join dir ''..'') s)
             (\<lambda>r. case r of (Inl e, s1) \<Rightarrow> Some (Inl e, s1)
                           | (Inr u, s1) \<Rightarrow> mkdirp dir s1))"

declare mkdirp.simps [code]

text \<open>
  \<open>truthy\<close> is the test \<open>if (this.munge)\<close> on a key that is \<open>null\<close> or a string:
  the empty string counts as false.
\<close>

definition truthy :: "string option \<Rightarrow> bool" where
  "truthy v = (case v of None \<Rightarrow> False | Some k \<Rightarrow> k \<noteq> [])"

definition encrypt :: "crypto \<Rightarrow> state \<Rightarrow> string \<Rightarrow> error + string" where
  "encrypt cr s data = cipher_run cr (cipher s) (munge s) data"

definition decrypt :: "crypto \<Rightarrow> state \<Rightarrow> string \<Rightarrow> error + string" where
  "decrypt cr s data = decipher_run cr (cipher s) (munge s) data"

text \<open>
  \<open>hide\<close> checks its argument, but on the platforms without a hidden flag it renames
  \<open>this.dbfile\<close> and stores the new name.
\<close>

definition hide :: "string \<Rightarrow> state \<Rightarrow> unit outcome" where
  "hide absolutePath s =
     (if \<not> pathReadable s absolutePath then
        (Inr (), warn (''Cannot hide '' @ absolutePath
                        @ '' (does not exist or cannot be found)'') s)
      else if os s = ''darwin'' then
        exec (''chflags hidden '' @ dquote # absolutePath @ [dquote]) s
      else if os s = ''win32'' then
        exec (''attrib +h '' @ dquote # absolutePath @ [dquote]) s
      else
        (let asset = basename (dbfile s) in
         if take 1 asset = ''.'' then (Inr (), s)
         else
           (let newFilepath = js_replace (dbfile s) asset (''.'' @ asset) in
            case renameSync (dbfile s) newFilepath s of
              (Inl e, s1) \<Rightarrow> (Inl e, s1)
            | (Inr u, s1) \<Rightarrow> (Inr (), s1\<lparr>dbfile := newFilepath\<rparr>))))"

text \<open>
  \<open>lock\<close> and \<open>unlock\<close>.  \<open>unlock\<close> has no statement that can throw, so it
  returns the new state only.
\<close>

definition lock :: "state \<Rightarrow> unit outcome" where
  "lock s =
     (if locked s then (Inr (), s)
      else
        (case lockSync (dbfile s) s of
           (Inl e, s1) \<Rightarrow> (Inl e, s1)
         | (Inr h, s1) \<Rightarrow>
             (let s2 = s1\<lparr>release := Some h\<rparr>;
                  s3 = s2\<lparr>lockowner := True\<rparr>
              in case (if hidelock s3 then hide (dbfile s3) s3 else (Inr (), s3)) of
                   (Inl e, s4) \<Rightarrow> (Inl e, s4)
                 | (Inr u, s4) \<Rightarrow> (Inr (), emit ''filelock'' s4))))"

definition unlock :: "state \<Rightarrow> state" where
  "unlock s =
     (if \<not> locked s then s
      else if \<not> isLockOwner s then
        warn ''Cannot unlock (this process does not own the lockfile.)'' s
      else
        (let s1 = (case release s of
                     Some h \<Rightarrow> emit ''fileunlock'' (run_release h s)
                   | None \<Rightarrow> s)
         in s1\<lparr>release := None\<rparr>))"

text \<open>
  \<open>presave\<close> builds its message from \<open>this.proxy.lockfilepid\<close>; when
  \<open>this.proxy\<close> is undefined the property access itself throws.  Both are errors.
\<close>

definition presave :: "state \<Rightarrow> unit outcome option" where
  "presave s =
     (if locked s then
        (case proxy_lockfilepid s of
           None \<Rightarrow> Some (Inl (TypeError ''Cannot read property lockfilepid of undefined''), s)
         | Some pid \<Rightarrow>
             Some (Inl (Error (''Process ID ''
                                @ (case pid of None \<Rightarrow> ''undefined'' | Some n \<Rightarrow> n)
                                @ '' has a lock on '' @ dbfile s @ ''. Cannot save.'')), s))
      else mkdirp (dirname (dbfile s)) s)"

text \<open>
  \<open>writeToDisk\<close> and \<open>readFromDisk\<close>; \<open>null\<close> is \<open>None\<close>.  The callback
  parameter of \<open>readFromDisk\<close> is never used by the method and is left out.
\<close>

definition writeToDisk :: "crypto \<Rightarrow> string \<Rightarrow> bool \<Rightarrow> state \<Rightarrow> unit outcome" where
  "writeToDisk cr content encryptdata s =
     (case (if autolock s \<and> \<not> locked s then lock s else (Inr (), s)) of
        (Inl e, s1) \<Rightarrow> (Inl e, s1)
      | (Inr u, s1) \<Rightarrow>
          (case (if encryptdata \<and> truthy (munge s1) then encrypt cr s1 content
                 else Inr content) of
             Inl e \<Rightarrow> (Inl e, s1)
           | Inr content1 \<Rightarrow>
               (case writeFileSync (dbfile s1) content1 s1 of
                  (Inl e, s2) \<Rightarrow> (Inl e, s2)
                | (Inr v, s2) \<Rightarrow>
                    (Inr (), if autolock s2 \<and> locked s2 then unlock s2 else s2))))"

definition readFromDisk :: "crypto \<Rightarrow> bool \<Rightarrow> state \<Rightarrow> error + string option" where
  "readFromDisk cr dec s =
     (if \<not> pathReadable s (dbfile s) then Inr None
      else
        (case readFileSync s (dbfile s) of
           Inl err \<Rightarrow> Inl err
         | Inr content \<Rightarrow>
             (if dec \<and> truthy (munge s) then
                (if truthy (munge s) then
                   (case decrypt cr s content of
                      Inl e \<Rightarrow> Inl e
                    | Inr content1 \<Rightarrow> Inr (Some content1))
                 else Inl (Error (''Unrecognized or encrypted format detected. If the file is ''
                                  @ ''encrypted, the proxy must have an encryptionKey configured..'')))
              else Inr (Some content))))"

section \<open>Vocabulary of the statements\<close>

text \<open>
  Canonical absolute paths: \<open>abs_path segs\<close> is the path with the components
  \<open>segs\<close>, the root for the empty list.  A component is valid when it is not empty,
  holds no separator and is neither \<open>.\<close> nor \<open>..\<close>.  The directory
  \<open>abs_path segs\<close> and its ancestors up to the root are the paths
  \<open>abs_path (take k segs)\<close> for \<open>k \<le> length segs\<close>.
\<close>

definition valid_seg :: "string \<Rightarrow> bool" where
  "valid_seg seg = (seg \<noteq> [] \<and> slash \<notin> set seg \<and> seg \<noteq> ''.'' \<and> seg \<noteq> ''..'')"

definition abs_path :: "string list \<Rightarrow> string" where
  "abs_path segs = slash # join_with slash segs"

text \<open>Observers of the trace.\<close>

fun is_write :: "action \<Rightarrow> bool" where
  "is_write (WriteFile p c) = True"
| "is_write a = False"

fun is_release :: "action \<Rightarrow> bool" where
  "is_release (Release h) = True"
| "is_release a = False"

fun is_lock :: "action \<Rightarrow> bool" where
  "is_lock (LockSync p) = True"
| "is_lock a = False"

section \<open>Example configurations\<close>

text \<open>
  \<open>fresh\<close> is a proxy as the constructor leaves it (autolock and hiding on, no key, no
  lock held) for the existing file \<open>/data/db.txt\<close> on a platform other than macOS
  and Windows.  \<open>fresh_mac\<close> is the same on macOS, \<open>contended\<close> has the lock marker
  of another process on the file, \<open>held\<close> is \<open>fresh_mac\<close> with the lock taken by
  this process (marker, stored release function and owner flag).  \<open>reclaimed\<close> is
  reached from \<open>fresh_mac\<close> when this process locks and unlocks and another process
  then puts its own marker on the file.  \<open>absent\<close> has no target file yet,
  \<open>rootless\<close> is a world in which nothing is readable, and \<open>toy\<close> is a stand-in for
  the crypto module.
\<close>

definition fresh :: state where
  "fresh = \<lparr>dbfile = ''/data/db.txt'', munge = None, cipher = ''aes-256-cbc'',
     autolock = True, hidelock = True, release = None, lockowner = False,
     proxy_lockfilepid = None, os = ''linux'',
     readable = {''/'', ''/data'', ''/data/db.txt''},
     files = [''/data/db.txt'' \<mapsto> ''old''],
     markers = {}, faulty = {}, badcmds = {}, trace = []\<rparr>"

definition fresh_mac :: state where
  "fresh_mac = fresh\<lparr>os := ''darwin''\<rparr>"

definition contended :: state where
  "contended = fresh\<lparr>markers := {''/data/db.txt''}\<rparr>"

definition held :: state where
  "held = fresh_mac\<lparr>markers := {''/data/db.txt''}, release := Some ''/data/db.txt'',
     lockowner := True\<rparr>"


definition absent :: state where
  "absent = fresh\<lparr>readable := {''/'', ''/data''}, files := Map.empty\<rparr>"

definition rootless :: state where
  "rootless = fresh\<lparr>readable := {}, files := Map.empty\<rparr>"

definition toy :: crypto where
  "toy = \<lparr>cipher_run = (\<lambda>alg key text. Inr (rev text)),
           decipher_run = (\<lambda>alg key text. Inr (rev text))\<rparr>"

section \<open>Saving while the file is locked\<close>

text \<open>
  C1.  If the target file is locked when a save starts (in particular when another
  process owns the lock), \<open>presave\<close> terminates by raising an error and the state it
  leaves is the state it found: no write has been attempted, the content of every file
  and the trace of actions are as before.
\<close>

theorem presave_locked_aborts:
  assumes "locked s"
  shows "\<exists>e. presave s = Some (Inl e, s)"
  using assms by (simp add: presave_def split: option.split)

theorem presave_locked_aborts_witness:
  "locked contended \<and> \<not> isLockOwner contended
   \<and> (\<exists>e. presave contended = Some (Inl e, contended))"
proof -
  have h: "locked contended"
    by (simp add: locked_def checkSync_def contended_def fresh_def)
  have "\<not> isLockOwner contended"
    by (simp add: isLockOwner_def contended_def fresh_def)
  with h presave_locked_aborts [OF h] show ?thesis by simp
qed

section \<open>Unlocking\<close>





text \<open>
  C2, as the code has it.  When the file is locked, this process is the owner and holds
  the release function of its acquisition, \<open>unlock\<close> calls that function (the marker
  it was created for disappears), then emits \<open>fileunlock\<close> and forgets the function.
  The owner flag is not reset: \<open>isLockOwner\<close> is still true afterwards.
\<close>

theorem unlock_owner_releases:
  assumes "locked s" and "isLockOwner s" and "release s = Some h"
  shows "markers (unlock s) = markers s - {h}
         \<and> trace (unlock s) = trace s @ [Release h, Emit ''fileunlock'']
         \<and> release (unlock s) = None
         \<and> isLockOwner (unlock s)
         \<and> (h = dbfile s \<longrightarrow> \<not> locked (unlock s))"
  using assms
  by (simp add: unlock_def emit_def run_release_def locked_def checkSync_def isLockOwner_def)

theorem unlock_owner_releases_witness:
  "locked held \<and> isLockOwner held \<and> release held = Some (dbfile held)
   \<and> markers (unlock held) = {}
   \<and> trace (unlock held) = [Release ''/data/db.txt'', Emit ''fileunlock'']
   \<and> release (unlock held) = None
   \<and> \<not> locked (unlock held)"
proof -
  have l: "locked held"
    by (simp add: locked_def checkSync_def held_def fresh_mac_def fresh_def)
  have o: "isLockOwner held"
    by (simp add: isLockOwner_def held_def fresh_mac_def fresh_def)
  have r: "release held = Some (dbfile held)"
    by (simp add: held_def fresh_mac_def fresh_def)
  have "markers held = {''/data/db.txt''}" and "trace held = []"
    and "dbfile held = ''/data/db.txt''"
    by (simp_all add: held_def fresh_mac_def fresh_def)
  with l o r unlock_owner_releases [OF l o r] show ?thesis by simp
qed

text \<open>
  C2 as the specification states it fails: after the owner has unlocked, the owner
  flag is still set.
\<close>

theorem unlock_keeps_owner_flag_counterexample:
  "locked held \<and> isLockOwner held \<and> release held = Some (dbfile held)
   \<and> isLockOwner (unlock held)"
  by (simp add: unlock_def emit_def run_release_def locked_def checkSync_def isLockOwner_def
      held_def fresh_mac_def fresh_def)

text \<open>
  C4, as the code has it.  \<open>unlock\<close> forgets the stored release function exactly when
  it gets past its two guards, that is when the file is locked and this process is the
  owner; on either early return the stored function stays as it was.
\<close>

theorem unlock_release_field:
  "release (unlock s) = (if locked s \<and> isLockOwner s then None else release s)"
  by (simp add: unlock_def warn_def emit_def run_release_def split: option.split)

text \<open>
  C4 as the specification states it fails.  On a platform where hiding renames the
  file, \<open>lock\<close> leaves the marker on the old name and \<open>dbfile\<close> on the new one, so
  the file no longer counts as locked; \<open>unlock\<close> then returns at its first guard and
  the release function is still stored.
\<close>

theorem unlock_keeps_release_counterexample:
  "fst (lock fresh) = Inr ()
   \<and> \<not> locked (snd (lock fresh))
   \<and> release (unlock (snd (lock fresh))) = Some ''/data/db.txt''"
  by (simp add: unlock_def lock_def hide_def lockSync_def renameSync_def emit_def
      locked_def checkSync_def pathReadable_def basename_def js_replace_def slash_def
      fresh_def Let_def)

section \<open>Locking\<close>

text \<open>
  In every state in which the file is already locked, by whichever owner, \<open>lock\<close>
  returns normally and changes nothing, so a second call in such a state adds no action
  to the trace and leaves the file path as it is.
\<close>

lemma lock_when_locked:
  assumes "locked s"
  shows "lock s = (Inr (), s)
         \<and> (isLockOwner s \<longrightarrow>
              fst (lock (snd (lock s))) = Inr ()
              \<and> locked (snd (lock (snd (lock s))))
              \<and> isLockOwner (snd (lock (snd (lock s))))
              \<and> trace (snd (lock (snd (lock s)))) = trace s
              \<and> dbfile (snd (lock (snd (lock s)))) = dbfile s)"
  using assms by (simp add: lock_def)

text \<open>
  C5.  \<open>lock\<close> is meant to be idempotent: a second call while this process is
  already the owner should have no further effect.  The code misses this on the platforms
  where hiding renames the file.  The first \<open>lock\<close> on \<open>fresh\<close> puts the marker on
  \<open>/data/db.txt\<close>, renames the file and stores the new name in \<open>dbfile\<close>; the
  getter \<open>locked\<close> then asks for a marker of the new name and answers false.  The
  second \<open>lock\<close> therefore passes the guard, takes a second marker, overwrites the
  stored release function of the first and emits \<open>filelock\<close> again.
\<close>

theorem lock_twice_after_rename:
  "fst (lock fresh) = Inr ()
   \<and> isLockOwner (snd (lock fresh))
   \<and> trace (snd (lock fresh))
       = [LockSync ''/data/db.txt'', Rename ''/data/db.txt'' ''/data/.db.txt'',
          Emit ''filelock'']
   \<and> fst (lock (snd (lock fresh))) = Inr ()
   \<and> trace (snd (lock (snd (lock fresh))))
       = [LockSync ''/data/db.txt'', Rename ''/data/db.txt'' ''/data/.db.txt'',
          Emit ''filelock'', LockSync ''/data/.db.txt'', Emit ''filelock'']
   \<and> release (snd (lock (snd (lock fresh)))) = Some ''/data/.db.txt''
   \<and> ''/data/db.txt'' \<in> markers (snd (lock (snd (lock fresh))))
   \<and> ''/data/.db.txt'' \<in> markers (snd (lock (snd (lock fresh))))"
  by (simp add: lock_def hide_def lockSync_def renameSync_def emit_def warn_def
      locked_def checkSync_def pathReadable_def isLockOwner_def basename_def js_replace_def
      slash_def fresh_def Let_def)

section \<open>Reading from disk\<close>

text \<open>
  C9.  When the target file does not exist or is not readable, \<open>readFromDisk\<close> returns
  \<open>null\<close> and raises nothing, whatever the crypto library and the value of the
  decrypt flag.
\<close>

theorem readFromDisk_unreadable_null:
  assumes "\<not> pathReadable s (dbfile s)"
  shows "readFromDisk cr dec s = Inr None"
  using assms by (simp add: readFromDisk_def)

theorem readFromDisk_unreadable_null_witness:
  "\<not> pathReadable absent (dbfile absent)
   \<and> readFromDisk toy True absent = Inr None
   \<and> readFromDisk toy False absent = Inr None"
proof -
  have h: "\<not> pathReadable absent (dbfile absent)"
    by (simp add: pathReadable_def absent_def fresh_def)
  from h readFromDisk_unreadable_null [OF h] show ?thesis by simp
qed

text \<open>
  C8, as the code has it.  For a readable target file and no usable encryption key
  (none, or the empty string), \<open>readFromDisk\<close> hands back what \<open>readFileSync\<close>
  delivered: the raw content, or the I/O error of the read.  The decrypt flag makes no
  difference and the format error is not raised.
\<close>

theorem readFromDisk_without_key:
  assumes "pathReadable s (dbfile s)" and "\<not> truthy (munge s)"
  shows "readFromDisk cr dec s = map_sum id Some (readFileSync s (dbfile s))"
  using assms by (simp add: readFromDisk_def split: sum.split)

theorem readFromDisk_without_key_witness:
  "pathReadable fresh (dbfile fresh) \<and> \<not> truthy (munge fresh)
   \<and> readFromDisk toy True fresh = map_sum id Some (readFileSync fresh (dbfile fresh))"
proof -
  have r: "pathReadable fresh (dbfile fresh)"
    by (simp add: pathReadable_def fresh_def)
  have k: "\<not> truthy (munge fresh)"
    by (simp add: truthy_def fresh_def)
  from r k readFromDisk_without_key [OF r k] show ?thesis by simp
qed

text \<open>
  C8 as the specification states it fails: with a readable file, the decrypt flag set
  and no key configured, the call returns the raw content instead of raising.
\<close>

theorem readFromDisk_without_key_counterexample:
  "pathReadable fresh (dbfile fresh) \<and> munge fresh = None
   \<and> readFromDisk toy True fresh = Inr (Some ''old'')"
  by (simp add: readFromDisk_def readFileSync_def pathReadable_def truthy_def fresh_def)

section \<open>Creating the directory tree\<close>

subsection \<open>The parent of a canonical absolute path\<close>

lemma split_on_nonempty: "split_on c xs \<noteq> []"
  by (induction xs) (auto split: list.split)

lemma split_on_append: "split_on c (xs @ c # ys) = split_on c xs @ split_on c ys"
proof (induction xs)
  case Nil
  then show ?case by simp
next
  case (Cons x xs)
  then show ?case
    using split_on_nonempty [of c xs]
    by (cases "split_on c xs") auto
qed

lemma split_on_free: "c \<notin> set xs \<Longrightarrow> split_on c xs = [xs]"
  by (induction xs) auto

lemma split_on_join:
  "segs \<noteq> [] \<Longrightarrow> \<forall>x \<in> set segs. c \<notin> set x \<Longrightarrow> split_on c (join_with c segs) = segs"
proof (induction c segs rule: join_with.induct)
  case (1 c)
  then show ?case by simp
next
  case (2 c x)
  then show ?case by (simp add: split_on_free)
next
  case (3 c x y ys)
  then show ?case by (simp add: split_on_append split_on_free)
qed

lemma foldl_normalizeStep_valid:
  "\<forall>x \<in> set segs. valid_seg x \<Longrightarrow> foldl (normalizeStep b) acc segs = acc @ segs"
  by (induction segs arbitrary: acc) (auto simp: normalizeStep_def valid_seg_def)

lemma last_valid: "segs \<noteq> [] \<Longrightarrow> \<forall>x \<in> set segs. valid_seg x \<Longrightarrow> last segs \<noteq> ''..''"
  by (metis last_in_set valid_seg_def)

lemma last_join_with:
  "segs \<noteq> [] \<Longrightarrow> \<forall>x \<in> set segs. x \<noteq> [] \<Longrightarrow> join_with c segs \<noteq> []"
  by (induction c segs rule: join_with.induct) auto

lemma path_join_parent:
  assumes "\<forall>x \<in> set segs. valid_seg x"
  shows "path_join (abs_path segs) ''..'' = abs_path (butlast segs)"
proof (cases "segs = []")
  case True
  then show ?thesis
    by (simp add: path_join_def abs_path_def normalize_def normalizeString_def
        normalizeStep_def slash_def)
next
  case False
  have nos: "\<forall>x \<in> set segs. slash \<notin> set x"
    using assms by (simp add: valid_seg_def)
  have sp: "split_on slash (abs_path segs @ slash # ''..'') = [] # segs @ [''..'']"
    using False nos
    by (simp add: abs_path_def split_on_append split_on_join split_on_free slash_def)
  have "normalizeString (abs_path segs @ slash # ''..'') False = butlast segs"
    using False assms last_valid [OF False assms]
    by (simp add: normalizeString_def sp foldl_normalizeStep_valid)
       (simp add: normalizeStep_def)
  then show ?thesis
    by (simp add: path_join_def abs_path_def normalize_def Let_def slash_def)
qed


subsection \<open>Termination and divergence of \<open>mkdirp\<close>\<close>

lemma butlast_take_prefix: "k < length segs \<Longrightarrow> take k (butlast segs) = take k segs"
  by (simp add: butlast_conv_take)

lemma valid_butlast: "\<forall>x \<in> set segs. valid_seg x \<Longrightarrow> \<forall>x \<in> set (butlast segs). valid_seg x"
  by (meson in_set_butlastD)

lemma mkdirp_parent_readable:
  assumes "pathReadable s (path_join dir ''..'')"
  shows "\<exists>r s'. mkdirp dir s = Some (r, s')
           \<and> (r = Inr () \<longrightarrow> pathReadable s' dir)
           \<and> (dir \<notin> faulty s \<longrightarrow> r = Inr ())
           \<and> faulty s' = faulty s"
proof (cases "pathReadable s dir")
  case True
  then show ?thesis by (subst mkdirp.simps) simp
next
  case False
  with assms have "mkdirp dir s = Some (mkdirSync dir s)"
    by (subst mkdirp.simps) simp
  with False show ?thesis
    by (cases "mkdirSync dir s")
       (auto simp: mkdirSync_def pathReadable_def split: if_splits)
qed

lemma mkdirp_terminates_aux:
  "\<forall>x \<in> set segs. valid_seg x \<Longrightarrow> k \<le> length segs \<Longrightarrow> length segs - k \<le> n
   \<Longrightarrow> pathReadable s (abs_path (take k segs))
   \<Longrightarrow> \<exists>r s'. mkdirp (abs_path segs) s = Some (r, s')
              \<and> (r = Inr () \<longrightarrow> pathReadable s' (abs_path segs))
              \<and> ((\<forall>j \<le> length segs. abs_path (take j segs) \<notin> faulty s) \<longrightarrow> r = Inr ())
              \<and> faulty s' = faulty s"
proof (induction n arbitrary: segs)
  case 0
  then have "pathReadable s (abs_path segs)" by simp
  then show ?case by (subst mkdirp.simps) simp
next
  case (Suc n)
  let ?dir = "abs_path segs"
  have par: "path_join ?dir ''..'' = abs_path (butlast segs)"
    using Suc.prems(1) by (rule path_join_parent)
  have self: "(\<forall>j \<le> length segs. abs_path (take j segs) \<notin> faulty s) \<longrightarrow> ?dir \<notin> faulty s"
    by (auto dest: spec [of _ "length segs"])
  show ?case
  proof (cases "pathReadable s ?dir")
    case True
    then show ?thesis by (subst mkdirp.simps) simp
  next
    case nd: False
    show ?thesis
    proof (cases "pathReadable s (path_join ?dir ''..'')")
      case True
      from mkdirp_parent_readable [OF True] self show ?thesis by blast
    next
      case np: False
      from nd Suc.prems(4) have "k \<noteq> length segs" by auto
      with Suc.prems(2) have kl: "k < length segs" by simp
      then have k1: "k \<le> length (butlast segs)" by simp
      have k2: "length (butlast segs) - k \<le> n" using Suc.prems(3) kl by simp
      have k3: "pathReadable s (abs_path (take k (butlast segs)))"
        using Suc.prems(4) kl by (simp add: butlast_take_prefix)
      have up_ok: "(\<forall>j \<le> length segs. abs_path (take j segs) \<notin> faulty s)
                   \<longrightarrow> (\<forall>j \<le> length (butlast segs).
                          abs_path (take j (butlast segs)) \<notin> faulty s)"
      proof (intro impI allI)
        fix j
        assume a: "\<forall>j \<le> length segs. abs_path (take j segs) \<notin> faulty s"
          and j: "j \<le> length (butlast segs)"
        from j kl have jl: "j < length segs" by simp
        then have "take j (butlast segs) = take j segs" by (rule butlast_take_prefix)
        with a jl show "abs_path (take j (butlast segs)) \<notin> faulty s" by simp
      qed
      from Suc.IH [OF valid_butlast [OF Suc.prems(1)] k1 k2 k3]
      obtain r s1 where up: "mkdirp (abs_path (butlast segs)) s = Some (r, s1)"
        and rd: "r = Inr () \<longrightarrow> pathReadable s1 (abs_path (butlast segs))"
        and ok: "(\<forall>j \<le> length (butlast segs). abs_path (take j (butlast segs)) \<notin> faulty s)
                 \<longrightarrow> r = Inr ()"
        and fa: "faulty s1 = faulty s"
        by blast
      show ?thesis
      proof (cases r)
        case (Inl e)
        with nd np up par have "mkdirp ?dir s = Some (Inl e, s1)"
          by (subst mkdirp.simps) simp
        with Inl ok up_ok fa show ?thesis by auto
      next
        case (Inr u)
        with rd have "pathReadable s1 (path_join ?dir ''..'')" by (simp add: par)
        from mkdirp_parent_readable [OF this]
        obtain r2 s2 where again: "mkdirp ?dir s1 = Some (r2, s2)"
          and rd2: "r2 = Inr () \<longrightarrow> pathReadable s2 ?dir"
          and ok2: "?dir \<notin> faulty s1 \<longrightarrow> r2 = Inr ()"
          and fa2: "faulty s2 = faulty s1" by blast
        from nd np up par Inr again have "mkdirp ?dir s = Some (r2, s2)"
          by (subst mkdirp.simps) simp
        with rd2 ok2 fa2 fa self show ?thesis by simp
      qed
    qed
  qed
qed

lemma mkdirp_returns_needs_ancestor:
  assumes "mkdirp dir s = Some y"
  shows "\<forall>segs. dir = abs_path segs \<and> (\<forall>x \<in> set segs. valid_seg x)
          \<longrightarrow> (\<exists>k \<le> length segs. pathReadable s (abs_path (take k segs)))"
proof (rule mkdirp.raw_induct
    [where P = "\<lambda>dir s y. \<forall>segs. dir = abs_path segs \<and> (\<forall>x \<in> set segs. valid_seg x)
                  \<longrightarrow> (\<exists>k \<le> length segs. pathReadable s (abs_path (take k segs)))",
     OF _ assms])
  fix f :: "string \<Rightarrow> state \<Rightarrow> unit outcome option" and dir s y
  assume ih: "\<And>d t z. f d t = Some z \<Longrightarrow>
                \<forall>segs. d = abs_path segs \<and> (\<forall>x \<in> set segs. valid_seg x)
                  \<longrightarrow> (\<exists>k \<le> length segs. pathReadable t (abs_path (take k segs)))"
    and step: "(if pathReadable s dir then Some (Inr (), s)
                else if pathReadable s (path_join dir ''..'') then Some (mkdirSync dir s)
                else Option.bind (f (path_join dir ''..'') s)
                       (\<lambda>r. case r of (Inl e, s1) \<Rightarrow> Some (Inl e, s1)
                                     | (Inr u, s1) \<Rightarrow> f dir s1)) = Some y"
  show "\<forall>segs. dir = abs_path segs \<and> (\<forall>x \<in> set segs. valid_seg x)
          \<longrightarrow> (\<exists>k \<le> length segs. pathReadable s (abs_path (take k segs)))"
  proof (intro allI impI)
    fix segs
    assume a: "dir = abs_path segs \<and> (\<forall>x \<in> set segs. valid_seg x)"
    then have par: "path_join dir ''..'' = abs_path (butlast segs)"
      by (simp add: path_join_parent)
    show "\<exists>k \<le> length segs. pathReadable s (abs_path (take k segs))"
    proof (cases "pathReadable s dir")
      case True
      with a show ?thesis by (intro exI [of _ "length segs"]) simp
    next
      case nd: False
      show ?thesis
      proof (cases "pathReadable s (path_join dir ''..'')")
        case True
        then have "pathReadable s (abs_path (take (length segs - 1) segs))"
          by (simp add: par butlast_conv_take)
        then show ?thesis by (intro exI [of _ "length segs - 1"]) simp
      next
        case False
        with nd step obtain r where "f (path_join dir ''..'') s = Some r"
          by (auto simp: bind_eq_Some_conv)
        note up = ih [OF this, rule_format, of "butlast segs"]
        have vb: "\<forall>x \<in> set (butlast segs). valid_seg x"
          by (rule valid_butlast) (simp add: a)
        from up par vb
        obtain k where k: "k \<le> length (butlast segs)"
          and rk: "pathReadable s (abs_path (take k (butlast segs)))"
          by auto
        from nd a rk have "segs \<noteq> []" by auto
        then have "length (butlast segs) < length segs" by simp
        with k have kl: "k < length segs" by (rule le_less_trans)
        with rk have "pathReadable s (abs_path (take k segs))"
          by (simp add: butlast_take_prefix)
        with kl show ?thesis by (intro exI [of _ k]) simp
      qed
    qed
  qed
qed

lemma mkdirp_absent_run:
  "mkdirp ''/data/sub/deep'' absent =
     Some (Inr (), absent\<lparr>readable := {''/data/sub/deep'', ''/data/sub'', ''/'', ''/data''},
                          trace := [Mkdir ''/data/sub'', Mkdir ''/data/sub/deep'']\<rparr>)"
  by (simp add: mkdirp.simps path_join_def normalize_def normalizeString_def normalizeStep_def
      mkdirSync_def pathReadable_def absent_def fresh_def slash_def Let_def)


text \<open>
  C10.  Let \<open>dir\<close> be an absolute directory path.  If \<open>dir\<close> or one of its
  ancestors is readable, \<open>mkdirp dir\<close> terminates (by induction on the number of
  components between \<open>dir\<close> and that ancestor); when it returns normally \<open>dir\<close>
  is readable, and it does return normally unless a call into the file system fails on
  \<open>dir\<close> or an ancestor.  If neither \<open>dir\<close> nor any ancestor up to and
  including the root is readable, the recursion never returns.
\<close>

theorem mkdirp_termination:
  assumes "\<forall>x \<in> set segs. valid_seg x"
  shows "((\<exists>k \<le> length segs. pathReadable s (abs_path (take k segs)))
          \<longrightarrow> (\<exists>r s'. mkdirp (abs_path segs) s = Some (r, s')
                       \<and> (r = Inr () \<longrightarrow> pathReadable s' (abs_path segs))
                       \<and> ((\<forall>j \<le> length segs. abs_path (take j segs) \<notin> faulty s)
                            \<longrightarrow> r = Inr ())))
         \<and> ((\<forall>k \<le> length segs. \<not> pathReadable s (abs_path (take k segs)))
          \<longrightarrow> mkdirp (abs_path segs) s = None)"
proof (intro conjI impI)
  assume "\<exists>k \<le> length segs. pathReadable s (abs_path (take k segs))"
  then obtain k where k: "k \<le> length segs" "pathReadable s (abs_path (take k segs))"
    by blast
  have "length segs - k \<le> length segs - k" by simp
  from mkdirp_terminates_aux [OF assms k(1) this k(2)]
  show "\<exists>r s'. mkdirp (abs_path segs) s = Some (r, s')
                       \<and> (r = Inr () \<longrightarrow> pathReadable s' (abs_path segs))
                       \<and> ((\<forall>j \<le> length segs. abs_path (take j segs) \<notin> faulty s)
                            \<longrightarrow> r = Inr ())"
    by blast
next
  assume none: "\<forall>k \<le> length segs. \<not> pathReadable s (abs_path (take k segs))"
  show "mkdirp (abs_path segs) s = None"
  proof (rule ccontr)
    assume "mkdirp (abs_path segs) s \<noteq> None"
    then obtain y where "mkdirp (abs_path segs) s = Some y" by blast
    from mkdirp_returns_needs_ancestor [OF this] assms none show False by blast
  qed
qed

theorem mkdirp_termination_witness:
  "pathReadable absent (abs_path (take 1 [''data'', ''sub'', ''deep'']))
   \<and> \<not> pathReadable absent (abs_path [''data'', ''sub'', ''deep''])
   \<and> (\<exists>s'. mkdirp (abs_path [''data'', ''sub'', ''deep'']) absent = Some (Inr (), s')
            \<and> pathReadable s' (abs_path [''data'', ''sub'', ''deep'']))
   \<and> mkdirp (abs_path [''data'', ''sub'']) rootless = None
   \<and> mkdirp ''/data/sub/deep'' absent =
       Some (Inr (), absent\<lparr>readable := {''/data/sub/deep'', ''/data/sub'', ''/'', ''/data''},
                            trace := [Mkdir ''/data/sub'', Mkdir ''/data/sub/deep'']\<rparr>)"
proof -
  have v: "\<forall>x \<in> set [''data'', ''sub'', ''deep'']. valid_seg x"
    by (simp add: valid_seg_def slash_def)
  have v2: "\<forall>x \<in> set [''data'', ''sub'']. valid_seg x"
    by (simp add: valid_seg_def slash_def)
  have r: "pathReadable absent (abs_path (take 1 [''data'', ''sub'', ''deep'']))"
    by (simp add: pathReadable_def abs_path_def slash_def absent_def fresh_def)
  have nr: "\<not> pathReadable absent (abs_path [''data'', ''sub'', ''deep''])"
    by (simp add: pathReadable_def abs_path_def slash_def absent_def fresh_def)
  from r have e: "\<exists>k \<le> length [''data'', ''sub'', ''deep''].
                  pathReadable absent (abs_path (take k [''data'', ''sub'', ''deep'']))"
    by (intro exI [of _ 1]) simp
  have f: "\<forall>j \<le> length [''data'', ''sub'', ''deep''].
             abs_path (take j [''data'', ''sub'', ''deep'']) \<notin> faulty absent"
    by (simp add: absent_def fresh_def)
  have n: "\<forall>k \<le> length [''data'', ''sub''].
             \<not> pathReadable rootless (abs_path (take k [''data'', ''sub'']))"
    by (simp add: pathReadable_def rootless_def fresh_def)
  from mkdirp_termination [OF v, of absent] e f
  have "\<exists>s'. mkdirp (abs_path [''data'', ''sub'', ''deep'']) absent = Some (Inr (), s')
            \<and> pathReadable s' (abs_path [''data'', ''sub'', ''deep''])"
    by blast
  moreover from mkdirp_termination [OF v2, of rootless] n
  have "mkdirp (abs_path [''data'', ''sub'']) rootless = None"
    by blast
  ultimately show ?thesis using r nr mkdirp_absent_run by blast
qed

subsection \<open>The directory handed to \<open>mkdirp\<close> by \<open>presave\<close>\<close>

text \<open>
  The constructor stores \<open>path.resolve(file)\<close>, a canonical absolute path, in
  \<open>dbfile\<close>; its \<open>dirname\<close> is again canonical, so \<open>presave\<close> calls
  \<open>mkdirp\<close> on a path of the form covered above.
\<close>

lemma join_with_snoc:
  "segs \<noteq> [] \<Longrightarrow> join_with c (segs @ [x]) = join_with c segs @ c # x"
  by (induction c segs rule: join_with.induct) auto

lemma dirname_abs_path:
  assumes "\<forall>x \<in> set segs. valid_seg x"
  shows "dirname (abs_path segs) = abs_path (butlast segs)"
proof (cases segs rule: rev_cases)
  case Nil
  then show ?thesis by (simp add: dirname_def abs_path_def slash_def)
next
  case (snoc init x)
  with assms have x: "x \<noteq> []" "slash \<notin> set x"
    by (simp_all add: valid_seg_def)
  then have hx: "hd (rev x) \<noteq> slash"
    by (metis hd_rev last_in_set)
  show ?thesis
  proof (cases "init = []")
    case True
    have "dropWhile (\<lambda>c. c = slash) (rev x) = rev x"
      using x hx by (cases "rev x") simp_all
    moreover have "dropWhile (\<lambda>c. c \<noteq> slash) (rev x) = []"
      using x by auto
    ultimately show ?thesis
      using snoc True by (simp add: dirname_def abs_path_def Let_def) (simp add: slash_def)
  next
    case False
    let ?j = "join_with slash init"
    have jn: "?j \<noteq> []"
      using False assms snoc by (intro last_join_with) (auto simp: valid_seg_def)
    have tlp: "tl (abs_path segs) = ?j @ slash # x"
      using snoc False by (simp add: abs_path_def join_with_snoc)
    have d1: "dropWhile (\<lambda>c. c = slash) (rev x @ slash # rev ?j) = rev x @ slash # rev ?j"
      using x hx by (cases "rev x") simp_all
    have d2: "dropWhile (\<lambda>c. c \<noteq> slash) (rev x @ slash # rev ?j) = slash # rev ?j"
      using x by (auto simp: dropWhile_append)
    have "dirname (abs_path segs) = take (Suc (length ?j)) (abs_path segs)"
      using jn by (simp add: dirname_def Let_def tlp d1 d2) (simp add: abs_path_def)
    also have "\<dots> = slash # ?j"
      using snoc False by (simp add: abs_path_def join_with_snoc)
    finally show ?thesis using snoc by (simp add: abs_path_def)
  qed
qed

lemma presave_unlocked:
  assumes "\<not> locked s" and "dbfile s = abs_path segs" and "\<forall>x \<in> set segs. valid_seg x"
  shows "presave s = mkdirp (abs_path (butlast segs)) s"
  using assms by (simp add: presave_def dirname_abs_path)

section \<open>Writing to disk\<close>

subsection \<open>What each stage of a write does\<close>

lemma hide_facts:
  assumes "hide p s = (Inr (), s1)"
  shows "\<exists>mid. trace s1 = trace s @ mid \<and> (\<forall>a \<in> set mid. \<not> is_write a \<and> \<not> is_release a \<and> \<not> is_lock a)"
    and "markers s1 = markers s" and "release s1 = release s" and "lockowner s1 = lockowner s"
    and "faulty s1 = faulty s" and "autolock s1 = autolock s" and "munge s1 = munge s"
    and "cipher s1 = cipher s"
  using assms
  by (auto simp: hide_def warn_def exec_def renameSync_def Let_def
      split: if_splits prod.splits sum.splits)

lemma lock_facts:
  assumes "\<not> locked s" and "lock s = (Inr (), s1)"
  shows "\<exists>mid. trace s1 = trace s @ LockSync (dbfile s) # mid
               \<and> (\<forall>a \<in> set mid. \<not> is_write a \<and> \<not> is_release a \<and> \<not> is_lock a)"
    and "markers s1 = insert (dbfile s) (markers s)"
    and "release s1 = Some (dbfile s)" and "lockowner s1"
    and "faulty s1 = faulty s" and "dbfile s \<notin> faulty s" and "dbfile s \<notin> markers s"
    and "autolock s1 = autolock s" and "munge s1 = munge s" and "cipher s1 = cipher s"
proof -
  define s3 where "s3 = s\<lparr>markers := insert (dbfile s) (markers s),
                          trace := trace s @ [LockSync (dbfile s)],
                          release := Some (dbfile s), lockowner := True\<rparr>"
  from assms have nf: "dbfile s \<notin> faulty s" and nm: "dbfile s \<notin> markers s"
    by (auto simp: lock_def lockSync_def split: if_splits)
  then have ls: "lock s = (case (if hidelock s3 then hide (dbfile s3) s3 else (Inr (), s3)) of
                   (Inl e, s4) \<Rightarrow> (Inl e, s4)
                 | (Inr u, s4) \<Rightarrow> (Inr (), emit ''filelock'' s4))"
    using assms(1) by (simp add: lock_def lockSync_def Let_def s3_def)
  obtain r4 s4 where r: "(if hidelock s3 then hide (dbfile s3) s3 else (Inr (), s3)) = (r4, s4)"
    by (cases "if hidelock s3 then hide (dbfile s3) s3 else (Inr (), s3)")
  from assms(2) have r4: "r4 = Inr ()" and fin: "s1 = emit ''filelock'' s4"
    unfolding ls r by (cases r4; simp)+
  note hd = r [unfolded r4]
  have h: "(\<exists>mid. trace s4 = trace s3 @ mid
                \<and> (\<forall>a \<in> set mid. \<not> is_write a \<and> \<not> is_release a \<and> \<not> is_lock a))
           \<and> markers s4 = markers s3 \<and> release s4 = release s3 \<and> lockowner s4 = lockowner s3
           \<and> faulty s4 = faulty s3 \<and> autolock s4 = autolock s3 \<and> munge s4 = munge s3
           \<and> cipher s4 = cipher s3"
  proof (cases "hidelock s3")
    case True
    with hd have "hide (dbfile s3) s3 = (Inr (), s4)" by simp
    from hide_facts [OF this] show ?thesis by simp
  next
    case False
    with hd have "s4 = s3" by simp
    then show ?thesis by simp
  qed
  then obtain mid where m: "trace s4 = trace s3 @ mid"
    and q: "\<forall>a \<in> set mid. \<not> is_write a \<and> \<not> is_release a \<and> \<not> is_lock a"
    by blast
  have "trace s1 = trace s @ LockSync (dbfile s) # (mid @ [Emit ''filelock''])"
    by (simp add: fin emit_def m s3_def)
  moreover have "\<forall>a \<in> set (mid @ [Emit ''filelock'']).
                   \<not> is_write a \<and> \<not> is_release a \<and> \<not> is_lock a"
    using q by simp
  ultimately show "\<exists>mid. trace s1 = trace s @ LockSync (dbfile s) # mid
               \<and> (\<forall>a \<in> set mid. \<not> is_write a \<and> \<not> is_release a \<and> \<not> is_lock a)"
    by blast
  from h show "markers s1 = insert (dbfile s) (markers s)"
    and "release s1 = Some (dbfile s)" and "lockowner s1"
    and "faulty s1 = faulty s" and "autolock s1 = autolock s" and "munge s1 = munge s"
    and "cipher s1 = cipher s"
    by (simp_all add: fin emit_def s3_def)
  show "dbfile s \<notin> faulty s" by (rule nf)
  show "dbfile s \<notin> markers s" by (rule nm)
qed

lemma writeFileSync_ok:
  assumes "writeFileSync p c s = (Inr (), s2)"
  shows "s2 = s\<lparr>files := (files s)(p \<mapsto> c),
               readable := (if files s p = None then insert p (readable s) else readable s),
               trace := trace s @ [WriteFile p c]\<rparr>"
  using assms by (auto simp: writeFileSync_def split: if_splits)

lemma writeToDisk_stages:
  assumes "writeToDisk cr content e s = (Inr (), s')"
  obtains s1 c1 s2 where
    "(if autolock s \<and> \<not> locked s then lock s else (Inr (), s)) = (Inr (), s1)"
    and "(if e \<and> truthy (munge s1) then encrypt cr s1 content else Inr content) = Inr c1"
    and "writeFileSync (dbfile s1) c1 s1 = (Inr (), s2)"
    and "s' = (if autolock s2 \<and> locked s2 then unlock s2 else s2)"
proof -
  obtain r1 s1 where a: "(if autolock s \<and> \<not> locked s then lock s else (Inr (), s)) = (r1, s1)"
    by (cases "if autolock s \<and> \<not> locked s then lock s else (Inr (), s)")
  let ?pl = "if e \<and> truthy (munge s1) then encrypt cr s1 content else Inr content"
  note w = assms [unfolded writeToDisk_def a]
  from w have r1: "r1 = Inr ()" by (cases r1) simp_all
  obtain c1 where c: "?pl = Inr c1"
    using w r1 by (cases ?pl) (simp_all split del: if_split)
  obtain r2 s2 where d: "writeFileSync (dbfile s1) c1 s1 = (r2, s2)"
    by (cases "writeFileSync (dbfile s1) c1 s1")
  from w have w2: "(case r2 of Inl e \<Rightarrow> (Inl e, s2)
                    | Inr v \<Rightarrow> (Inr (), if autolock s2 \<and> locked s2 then unlock s2 else s2))
                   = (Inr (), s')"
    by (simp add: r1 c d split del: if_split)
  then have r2: "r2 = Inr ()" by (cases r2) simp_all
  from w2 r2 have "s' = (if autolock s2 \<and> locked s2 then unlock s2 else s2)"
    by (simp split del: if_split)
  with a [unfolded r1] c d [unfolded r2] show thesis by (rule that)
qed

lemma unlock_trace:
  "locked s \<Longrightarrow> trace (unlock s) = trace s @
     (if \<not> isLockOwner s then [Warn ''Cannot unlock (this process does not own the lockfile.)'']
      else case release s of None \<Rightarrow> [] | Some h \<Rightarrow> [Release h, Emit ''fileunlock''])"
  by (simp add: unlock_def warn_def emit_def run_release_def split: option.split)

lemma unlock_markers:
  "markers (unlock s) =
     (if locked s \<and> isLockOwner s then (case release s of None \<Rightarrow> markers s | Some h \<Rightarrow> markers s - {h})
      else markers s)"
  by (simp add: unlock_def warn_def emit_def run_release_def split: option.split)

lemma unlock_dbfile: "dbfile (unlock s) = dbfile s"
  by (simp add: unlock_def warn_def emit_def run_release_def split: option.split)

lemma unlock_files: "files (unlock s) = files s"
  by (simp add: unlock_def warn_def emit_def run_release_def split: option.split)

lemma unlock_faulty: "faulty (unlock s) = faulty s"
  by (simp add: unlock_def warn_def emit_def run_release_def split: option.split)

lemma release_after_unlock: "release (unlock s) = (if locked s \<and> isLockOwner s then None else release s)"
  by (simp add: unlock_def warn_def emit_def run_release_def split: option.split)

lemma locked_iff: "locked s \<longleftrightarrow> dbfile s \<in> markers s \<and> dbfile s \<notin> faulty s"
  by (auto simp: locked_def checkSync_def)

lemma writeToDisk_manual:
  assumes ok: "writeToDisk cr content e s = (Inr (), s')" and na: "\<not> autolock s"
  shows "\<exists>c1. (if e \<and> truthy (munge s) then encrypt cr s content else Inr content) = Inr c1
           \<and> files s' (dbfile s') = Some c1
           \<and> trace s' = trace s @ [WriteFile (dbfile s) c1] \<and> dbfile s' = dbfile s
           \<and> markers s' = markers s \<and> release s' = release s \<and> lockowner s' = lockowner s"
proof -
  from ok obtain s1 c1 s2 where
    a: "(if autolock s \<and> \<not> locked s then lock s else (Inr (), s)) = (Inr (), s1)"
    and c: "(if e \<and> truthy (munge s1) then encrypt cr s1 content else Inr content) = Inr c1"
    and d: "writeFileSync (dbfile s1) c1 s1 = (Inr (), s2)"
    and f: "s' = (if autolock s2 \<and> locked s2 then unlock s2 else s2)"
    by (rule writeToDisk_stages)
  from a na have s1: "s1 = s" by simp
  note c' = c [unfolded s1]
  note w = writeFileSync_ok [OF d, unfolded s1]
  from w na f have "s' = s2" by simp
  with w show ?thesis by (intro exI [of _ c1] conjI c') simp_all
qed

lemma writeToDisk_prelocked:
  assumes ok: "writeToDisk cr content e s = (Inr (), s')" and au: "autolock s" and lk: "locked s"
  shows "\<exists>c1. (if e \<and> truthy (munge s) then encrypt cr s content else Inr content) = Inr c1
           \<and> files s' (dbfile s') = Some c1
           \<and> trace s' = trace s @ WriteFile (dbfile s) c1 #
               (if \<not> isLockOwner s
                then [Warn ''Cannot unlock (this process does not own the lockfile.)'']
                else case release s of None \<Rightarrow> [] | Some h \<Rightarrow> [Release h, Emit ''fileunlock''])
           \<and> dbfile s' = dbfile s
           \<and> markers s' = (if isLockOwner s
                            then (case release s of None \<Rightarrow> markers s | Some h \<Rightarrow> markers s - {h})
                            else markers s)"
proof -
  from ok obtain s1 c1 s2 where
    a: "(if autolock s \<and> \<not> locked s then lock s else (Inr (), s)) = (Inr (), s1)"
    and c: "(if e \<and> truthy (munge s1) then encrypt cr s1 content else Inr content) = Inr c1"
    and d: "writeFileSync (dbfile s1) c1 s1 = (Inr (), s2)"
    and f: "s' = (if autolock s2 \<and> locked s2 then unlock s2 else s2)"
    by (rule writeToDisk_stages)
  from a lk have s1: "s1 = s" by simp
  note c' = c [unfolded s1]
  note w = writeFileSync_ok [OF d, unfolded s1]
  from w lk have l2: "locked s2" by (simp add: locked_iff)
  from w au have "autolock s2" by simp
  with l2 f have s': "s' = unlock s2" by simp
  have o2: "isLockOwner s2 = isLockOwner s" and r2: "release s2 = release s"
    and m2: "markers s2 = markers s" and d2: "dbfile s2 = dbfile s"
    and t2: "trace s2 = trace s @ [WriteFile (dbfile s) c1]"
    and f2: "files s2 (dbfile s) = Some c1"
    using w by (simp_all add: isLockOwner_def)
  show ?thesis
    by (intro exI [of _ c1] conjI c')
       (simp_all add: s' unlock_trace [OF l2] unlock_markers unlock_dbfile unlock_files
          l2 o2 r2 m2 d2 t2 f2 split: option.split)
qed

lemma writeToDisk_autolock:
  assumes ok: "writeToDisk cr content e s = (Inr (), s')" and au: "autolock s" and nl: "\<not> locked s"
  shows "\<exists>c1. (if e \<and> truthy (munge s) then encrypt cr s content else Inr content) = Inr c1
           \<and> files s' (dbfile s') = Some c1
           \<and> (\<exists>mid post.
                 trace s' = trace s @ LockSync (dbfile s) # mid @ WriteFile (dbfile s') c1 # post
               \<and> (\<forall>a \<in> set mid. \<not> is_write a \<and> \<not> is_release a \<and> \<not> is_lock a)
               \<and> (\<forall>a \<in> set post. \<not> is_write a \<and> \<not> is_lock a)
               \<and> (dbfile s' = dbfile s \<longrightarrow>
                     post = [Release (dbfile s), Emit ''fileunlock'']
                   \<and> markers s' = markers s \<and> \<not> locked s' \<and> release s' = None))"
proof -
  from ok obtain s1 c1 s2 where
    a: "(if autolock s \<and> \<not> locked s then lock s else (Inr (), s)) = (Inr (), s1)"
    and c: "(if e \<and> truthy (munge s1) then encrypt cr s1 content else Inr content) = Inr c1"
    and d: "writeFileSync (dbfile s1) c1 s1 = (Inr (), s2)"
    and f: "s' = (if autolock s2 \<and> locked s2 then unlock s2 else s2)"
    by (rule writeToDisk_stages)
  from a au nl have l: "lock s = (Inr (), s1)" by simp
  note lf = lock_facts [OF nl l]
  from lf(1) obtain mid where t1: "trace s1 = trace s @ LockSync (dbfile s) # mid"
    and q: "\<forall>a \<in> set mid. \<not> is_write a \<and> \<not> is_release a \<and> \<not> is_lock a"
    by blast
  note w = writeFileSync_ok [OF d]
  have c': "(if e \<and> truthy (munge s) then encrypt cr s content else Inr content) = Inr c1"
    using c lf(9,10) by (auto simp: encrypt_def split: if_splits)
  have d2: "dbfile s2 = dbfile s1" and m2: "markers s2 = markers s1"
    and fa2: "faulty s2 = faulty s1" and o2: "isLockOwner s2" and r2: "release s2 = Some (dbfile s)"
    and t2: "trace s2 = trace s @ LockSync (dbfile s) # mid @ [WriteFile (dbfile s1) c1]"
    and f2: "files s2 (dbfile s1) = Some c1" and a2: "autolock s2"
    using w lf t1 au by (simp_all add: isLockOwner_def)
  have ds: "dbfile s' = dbfile s1" and fs: "files s' = files s2"
    using f d2 by (simp_all add: unlock_dbfile unlock_files)
  define post where "post = (if locked s2 then [Release (dbfile s), Emit ''fileunlock''] else [])"
  have ts: "trace s' = trace s @ LockSync (dbfile s) # mid @ WriteFile (dbfile s') c1 # post"
    using f a2 o2 r2 t2 ds by (simp add: post_def unlock_trace)
  have pq: "\<forall>a \<in> set post. \<not> is_write a \<and> \<not> is_lock a"
    by (auto simp: post_def)
  have same: "dbfile s' = dbfile s \<longrightarrow>
                post = [Release (dbfile s), Emit ''fileunlock'']
              \<and> markers s' = markers s \<and> \<not> locked s' \<and> release s' = None"
  proof
    assume e: "dbfile s' = dbfile s"
    with ds have e1: "dbfile s1 = dbfile s" by simp
    have l2: "locked s2"
      using d2 m2 fa2 e1 lf(2,5,6) by (simp add: locked_iff)
    with f a2 have s': "s' = unlock s2" by simp
    show "post = [Release (dbfile s), Emit ''fileunlock'']
              \<and> markers s' = markers s \<and> \<not> locked s' \<and> release s' = None"
      using l2 o2 r2 m2 lf(2,7) d2 e1
      by (simp add: post_def s' unlock_markers release_after_unlock locked_iff unlock_dbfile)
  qed
  show ?thesis
    using c' f2 ds fs ts q pq same
    by (intro exI [of _ c1] conjI exI [of _ mid] exI [of _ post]) simp_all
qed


subsection \<open>The protocol around a write\<close>

text \<open>
  Whenever \<open>writeToDisk\<close> returns normally, the whole target file has been replaced
  by the content (encrypted first when asked for and a key is configured), in a single
  write.  With autolock on and the file not locked at the call, the lock is taken before
  the write and nothing is written or released in between; when the file path is still
  the same after locking, the lock is released right after the write and the file is
  unlocked on return.  With autolock on and the file already locked at the call,
  \<open>unlock\<close> runs after the write.  With autolock off there is no action besides the
  write.
\<close>

lemma writeToDisk_protocol:
  assumes "writeToDisk cr content e s = (Inr (), s')"
  shows "\<exists>c1. (if e \<and> truthy (munge s) then encrypt cr s content else Inr content) = Inr c1
           \<and> files s' (dbfile s') = Some c1
           \<and> (autolock s \<and> \<not> locked s \<longrightarrow>
                (\<exists>mid post.
                    trace s' = trace s @ LockSync (dbfile s) # mid
                                 @ WriteFile (dbfile s') c1 # post
                  \<and> (\<forall>a \<in> set mid. \<not> is_write a \<and> \<not> is_release a \<and> \<not> is_lock a)
                  \<and> (\<forall>a \<in> set post. \<not> is_write a \<and> \<not> is_lock a)
                  \<and> (dbfile s' = dbfile s \<longrightarrow>
                        post = [Release (dbfile s), Emit ''fileunlock'']
                      \<and> markers s' = markers s \<and> \<not> locked s' \<and> release s' = None)))
           \<and> (autolock s \<and> locked s \<longrightarrow>
                  trace s' = trace s @ WriteFile (dbfile s) c1 #
                    (if \<not> isLockOwner s
                     then [Warn ''Cannot unlock (this process does not own the lockfile.)'']
                     else case release s of None \<Rightarrow> []
                          | Some h \<Rightarrow> [Release h, Emit ''fileunlock''])
                \<and> dbfile s' = dbfile s
                \<and> markers s' = (if isLockOwner s
                                 then (case release s of None \<Rightarrow> markers s
                                       | Some h \<Rightarrow> markers s - {h})
                                 else markers s))
           \<and> (\<not> autolock s \<longrightarrow>
                  trace s' = trace s @ [WriteFile (dbfile s) c1] \<and> dbfile s' = dbfile s
                \<and> markers s' = markers s \<and> release s' = release s
                \<and> lockowner s' = lockowner s)"
proof (cases "autolock s")
  case False
  from writeToDisk_manual [OF assms False] show ?thesis
    using False by blast
next
  case au: True
  show ?thesis
  proof (cases "locked s")
    case True
    from writeToDisk_prelocked [OF assms au True] show ?thesis
      using au True by blast
  next
    case False
    from writeToDisk_autolock [OF assms au False] show ?thesis
      using au False by blast
  qed
qed

text \<open>
  On macOS hiding sets a flag and keeps the name: the lock taken for the write is
  released after it.
\<close>

lemma eval_fresh_mac:
  "writeToDisk toy ''new'' True fresh_mac =
     (Inr (), fresh_mac\<lparr>lockowner := True,
        trace := [LockSync ''/data/db.txt'',
                  Exec (''chflags hidden '' @ dquote # ''/data/db.txt'' @ [dquote]),
                  Emit ''filelock'', WriteFile ''/data/db.txt'' ''new'',
                  Release ''/data/db.txt'', Emit ''fileunlock''],
        files := [''/data/db.txt'' \<mapsto> ''new'']\<rparr>)"
  by (simp add: writeToDisk_def lock_def unlock_def hide_def exec_def lockSync_def
      writeFileSync_def emit_def run_release_def locked_def checkSync_def pathReadable_def
      isLockOwner_def truthy_def fresh_mac_def fresh_def Let_def)

text \<open>
  Whenever locking renamed the file and the new name carries no marker, the write
  returns with the marker of the old name in place, the release function stored and no
  release in the trace.
\<close>

lemma writeToDisk_rename_leak:
  assumes ok: "writeToDisk cr content e s = (Inr (), s')"
    and au: "autolock s" and nl: "\<not> locked s"
    and mv: "dbfile s' \<noteq> dbfile s" and fr: "dbfile s' \<notin> markers s"
  shows "markers s' = insert (dbfile s) (markers s)
         \<and> release s' = Some (dbfile s)
         \<and> (\<forall>a \<in> set (drop (length (trace s)) (trace s')). \<not> is_release a)"
proof -
  from ok obtain s1 c1 s2 where
    a: "(if autolock s \<and> \<not> locked s then lock s else (Inr (), s)) = (Inr (), s1)"
    and d: "writeFileSync (dbfile s1) c1 s1 = (Inr (), s2)"
    and f: "s' = (if autolock s2 \<and> locked s2 then unlock s2 else s2)"
    by (rule writeToDisk_stages)
  from a au nl have l: "lock s = (Inr (), s1)" by simp
  note lf = lock_facts [OF nl l]
  from lf(1) obtain mid where t1: "trace s1 = trace s @ LockSync (dbfile s) # mid"
    and q: "\<forall>a \<in> set mid. \<not> is_write a \<and> \<not> is_release a \<and> \<not> is_lock a"
    by blast
  note w = writeFileSync_ok [OF d]
  have d2: "dbfile s2 = dbfile s1" and m2: "markers s2 = insert (dbfile s) (markers s)"
    and r2: "release s2 = Some (dbfile s)"
    and t2: "trace s2 = trace s @ LockSync (dbfile s) # mid @ [WriteFile (dbfile s1) c1]"
    using w lf t1 by simp_all
  have ds: "dbfile s' = dbfile s2" using f by (simp add: unlock_dbfile)
  with mv fr d2 m2 have "\<not> locked s2" by (simp add: locked_iff)
  with f have "s' = s2" by simp
  with m2 r2 t2 q show ?thesis by auto
qed

text \<open>
  C6.  With autolock on, \<open>writeToDisk\<close> is to take the lock before the write and
  release it after the write.  The code misses the release on the platforms where hiding
  renames the file.  On \<open>fresh\<close> the lock is taken on \<open>/data/db.txt\<close>, the file
  is renamed and written under its new name; the test \<open>this.locked\<close> after the write
  asks for a marker of the new name, answers false, and \<open>unlock\<close> is not called.
  When \<open>writeToDisk\<close> has returned, the marker of the lock this call acquired is
  still there, the release function is still stored, and no release is in the trace.
\<close>

theorem writeToDisk_leaks_lock_after_rename:
  "autolock fresh \<and> \<not> locked fresh
   \<and> fst (writeToDisk toy ''new'' True fresh) = Inr ()
   \<and> trace (snd (writeToDisk toy ''new'' True fresh))
       = [LockSync ''/data/db.txt'', Rename ''/data/db.txt'' ''/data/.db.txt'',
          Emit ''filelock'', WriteFile ''/data/.db.txt'' ''new'']
   \<and> markers (snd (writeToDisk toy ''new'' True fresh)) = {''/data/db.txt''}
   \<and> release (snd (writeToDisk toy ''new'' True fresh)) = Some ''/data/db.txt''
   \<and> isLockOwner (snd (writeToDisk toy ''new'' True fresh))"
  by (simp add: writeToDisk_def lock_def unlock_def hide_def lockSync_def renameSync_def
      writeFileSync_def emit_def warn_def locked_def checkSync_def pathReadable_def
      isLockOwner_def truthy_def basename_def js_replace_def slash_def fresh_def Let_def)

end
